theory Spec2Isabelle
  imports Complex_Main "HOL-Library.Sublist"
begin

section \<open>The Bucket Engine\<close>

text \<open>
  \<^verbatim>\<open>server.js\<close> creates the bucket store (\<^verbatim>\<open>new LimitDB(dbConfig)\<close>) and hands it to the
  request handler; the accounting itself is not part of \<^verbatim>\<open>server.js\<close>. The definitions of
  this section follow section 4.1 of the specification.
\<close>

datatype operation = TAKE | PUT | STATUS

record bucket_type_config =
  bucket_size :: nat
  refill_rate :: rat
  unlimited :: bool

record bucket_state =
  remaining :: rat
  last_update :: rat

record outcome =
  conformant :: bool
  out_remaining :: rat
  out_limit :: nat

datatype engine_error = InvalidRequest

text \<open>
  Modelled from the spec: the refill step of the Bucket Engine (the \<^verbatim>\<open>limitdb\<close> store and
  \<^verbatim>\<open>lib/pipeline/RequestHandler\<close> are not among the sources).
  \<^verbatim>\<open>elapsed = now - previousState.lastUpdateTimestamp;
  refilled = min(size, previousState.remaining + elapsed * refillRate)\<close>.
  Quantities are rationals: the spec asks that sub-unit precision is kept.
\<close>

definition refill :: "bucket_type_config \<Rightarrow> bucket_state \<Rightarrow> rat \<Rightarrow> rat" where
  "refill cfg prev now =
     (let elapsed = now - last_update prev
      in min (of_nat (bucket_size cfg)) (remaining prev + elapsed * refill_rate cfg))"

text \<open>
  Modelled from the spec: a key that has never been seen starts at full capacity
  (\<^verbatim>\<open>remaining = size\<close>).
\<close>

definition fresh :: "bucket_type_config \<Rightarrow> rat \<Rightarrow> bucket_state" where
  "fresh cfg now = \<lparr>remaining = of_nat (bucket_size cfg), last_update = now\<rparr>"

text \<open>
  Modelled from the spec: \<^verbatim>\<open>evaluate(bucketTypeConfig, previousState, operation, count, now)
  \<rightarrow> (newState, outcome)\<close> of section 4.1, which is missing from the sources.
  A negative count signals \<^verbatim>\<open>InvalidRequest\<close>; an unlimited bucket type answers conformant
  with \<^verbatim>\<open>remaining = size\<close> and leaves the state alone; TAKE, PUT and STATUS work on the
  refilled amount. The reset timestamp of the outcome is left out: the spec only sketches
  it. PING never reaches the engine.
\<close>

definition evaluate ::
  "bucket_type_config \<Rightarrow> bucket_state \<Rightarrow> operation \<Rightarrow> int \<Rightarrow> rat
     \<Rightarrow> engine_error + (bucket_state \<times> outcome)" where
  "evaluate cfg prev operation count now =
     (if count < 0 then Inl InvalidRequest
      else if unlimited cfg then
        Inr (prev, \<lparr>conformant = True, out_remaining = of_nat (bucket_size cfg),
                   out_limit = bucket_size cfg\<rparr>)
      else
        let refilled = refill cfg prev now in
        (case operation of
           TAKE \<Rightarrow>
             if of_int count \<le> refilled then
               Inr (\<lparr>remaining = refilled - of_int count, last_update = now\<rparr>,
                    \<lparr>conformant = True, out_remaining = refilled - of_int count,
                     out_limit = bucket_size cfg\<rparr>)
             else
               Inr (\<lparr>remaining = refilled, last_update = now\<rparr>,
                    \<lparr>conformant = False, out_remaining = refilled,
                     out_limit = bucket_size cfg\<rparr>)
         | PUT \<Rightarrow>
             (let newRemaining = min (of_nat (bucket_size cfg)) (refilled + of_int count)
              in Inr (\<lparr>remaining = newRemaining, last_update = now\<rparr>,
                      \<lparr>conformant = True, out_remaining = newRemaining,
                       out_limit = bucket_size cfg\<rparr>))
         | STATUS \<Rightarrow>
             Inr (\<lparr>remaining = refilled, last_update = now\<rparr>,
                  \<lparr>conformant = True, out_remaining = refilled,
                   out_limit = bucket_size cfg\<rparr>)))"

text \<open>
  A sequence of operations on one key, each with its count and its instant. An operation
  that signals an error persists nothing.
\<close>

type_synonym bucket_op = "operation \<times> int \<times> rat"

definition apply_op :: "bucket_type_config \<Rightarrow> bucket_state \<Rightarrow> bucket_op \<Rightarrow> bucket_state" where
  "apply_op cfg s x =
     (case x of (operation, count, now) \<Rightarrow>
        (case evaluate cfg s operation count now of
           Inl _ \<Rightarrow> s
         | Inr (s', _) \<Rightarrow> s'))"

fun states_after :: "bucket_type_config \<Rightarrow> bucket_state \<Rightarrow> bucket_op list \<Rightarrow> bucket_state list" where
  "states_after cfg s [] = []"
| "states_after cfg s (x # xs) = apply_op cfg s x # states_after cfg (apply_op cfg s x) xs"

text \<open>The instants of the operations do not run backwards, starting from \<open>t\<close>.\<close>

fun chronological :: "rat \<Rightarrow> bucket_op list \<Rightarrow> bool" where
  "chronological t [] = True"
| "chronological t ((operation, count, now) # xs) = (t \<le> now \<and> chronological now xs)"

definition in_range :: "bucket_type_config \<Rightarrow> bucket_state \<Rightarrow> bool" where
  "in_range cfg s = (0 \<le> remaining s \<and> remaining s \<le> of_nat (bucket_size cfg))"

definition unlimited_cfg :: bucket_type_config where
  "unlimited_cfg = \<lparr>bucket_size = 10, refill_rate = 1, unlimited = True\<rparr>"

definition ten_per_second :: bucket_type_config where
  "ten_per_second = \<lparr>bucket_size = 10, refill_rate = 1, unlimited = False\<rparr>"

definition draining :: bucket_type_config where
  "draining = \<lparr>bucket_size = 10, refill_rate = - 1, unlimited = False\<rparr>"

section \<open>The daemon of server.js\<close>

subsection \<open>Values that cross the daemon's boundary\<close>

text \<open>
  A JavaScript error as far as \<^verbatim>\<open>server.js\<close> reads it: \<^verbatim>\<open>err.code\<close> and
  \<^verbatim>\<open>err.message\<close>.
\<close>

record js_error =
  err_code :: string
  err_message :: string

type_synonym address = "string \<times> nat"

text \<open>
  A callback argument (\<^verbatim>\<open>done\<close> of \<^verbatim>\<open>start\<close>, \<^verbatim>\<open>callback\<close> of \<^verbatim>\<open>stop\<close>) is optional:
  \<open>None\<close> is \<^verbatim>\<open>undefined\<close>, \<open>Some k\<close> is the caller's function number \<open>k\<close>.
\<close>

type_synonym callback = "nat option"

datatype log_level = Debug | Info | Error

text \<open>
  The object a logger call receives: the connection it is about (\<^verbatim>\<open>remoteAddress\<close> and
  \<^verbatim>\<open>remotePort\<close> of \<^verbatim>\<open>sockets_details\<close>), the \<^verbatim>\<open>err\<close> field and the \<^verbatim>\<open>address\<close> field.
  The path of the database, which two messages of the constructor carry, is left out.
\<close>

datatype details =
  Details (d_conn: "nat option") (d_err: "js_error option") (d_address: "address option")

datatype daemon_event = Started address | ErrorEvent js_error | Close

datatype done_arg = DoneErr js_error | DoneOk address

datatype stop_arg = CloseResult "js_error option" | TimeoutError nat

text \<open>
  What the daemon does to the outside world, in the order it does it: logger calls,
  events emitted by the \<^verbatim>\<open>LimitdServer\<close> itself, calls into the TCP server and the store,
  calls of the caller's callbacks, and what happens to a connection's socket.
  \<open>ServerDestroy i\<close>, \<open>DbClose i\<close> and \<open>CallStop i\<close> carry the number of the \<^verbatim>\<open>stop()\<close>
  invocation they belong to; \<open>Unhandled\<close> is an \<^verbatim>\<open>'error'\<close> event of the request handler
  that finds no listener of \<^verbatim>\<open>server.js\<close> left; \<open>HandlerWrite\<close> is a decoded request
  that the pipe chain hands to the request handler.
\<close>

datatype 'r action =
    Log log_level details string
  | Emit daemon_event
  | DbOnceReady
  | ServerListen
  | ServerDestroy nat
  | DbClose nat
  | CallDone nat done_arg
  | CallStop nat stop_arg
  | SocketEnd nat
  | SocketWrite nat 'r
  | Unhandled nat js_error
  | HandlerWrite nat

subsection \<open>The completion wrapper of stop\<close>

text \<open>
  Modelled from the spec: \<^verbatim>\<open>cb(callback || _.noop).timeout(5000).once()\<close> comes from the
  \<^verbatim>\<open>cb\<close> package, which is not among the sources. The spec describes it as a single-fire
  completion guarded by a timeout: the first of normal completion and timeout wins, and the
  wrapped function runs at most once. The wrapper counts the runs of the wrapped function,
  remembers whether it timed out, and holds the armed timer (its delay in milliseconds).
\<close>

record cb_wrapper =
  cb_count :: nat
  cb_once :: bool
  cb_timedout :: bool
  cb_timer :: "nat option"

definition cb_new :: cb_wrapper where
  "cb_new = \<lparr>cb_count = 0, cb_once = False, cb_timedout = False, cb_timer = None\<rparr>"

definition cb_timeout :: "nat \<Rightarrow> cb_wrapper \<Rightarrow> cb_wrapper" where
  "cb_timeout ms w = w\<lparr>cb_timer := Some ms\<rparr>"

definition cb_set_once :: "cb_wrapper \<Rightarrow> cb_wrapper" where
  "cb_set_once w = w\<lparr>cb_once := True\<rparr>"

text \<open>
  Modelled from the spec: calling the wrapper. The result says whether the wrapped function
  runs; a run disarms the timer.
\<close>

definition cb_call :: "cb_wrapper \<Rightarrow> bool \<times> cb_wrapper" where
  "cb_call w =
     (if cb_timedout w \<or> (cb_once w \<and> 0 < cb_count w) then (False, w)
      else (True, w\<lparr>cb_count := cb_count w + 1, cb_timer := None\<rparr>))"

text \<open>
  Modelled from the spec: the armed timer expires. The wrapper is called with a timeout
  error and is marked as timed out; the result is the delay of the timer when the wrapped
  function runs with that error.
\<close>

definition cb_expire :: "cb_wrapper \<Rightarrow> nat option \<times> cb_wrapper" where
  "cb_expire w =
     (case cb_timer w of
        None \<Rightarrow> (None, w)
      | Some ms \<Rightarrow>
          (case cb_call w of
             (invoked, w') \<Rightarrow> (if invoked then Some ms else None,
                           w'\<lparr>cb_timedout := True, cb_timer := None\<rparr>)))"

text \<open>
  The two states a wrapper made by \<^verbatim>\<open>stop\<close> can be in: untouched with its timer of 5000
  milliseconds armed, or run once with the timer gone.
\<close>

definition single_fire :: "cb_wrapper \<Rightarrow> bool" where
  "single_fire w =
     (cb_once w \<and>
      ((cb_count w = 0 \<and> \<not> cb_timedout w \<and> cb_timer w = Some 5000)
       \<or> (cb_count w = 1 \<and> cb_timer w = None)))"

subsection \<open>State\<close>

text \<open>
  Per connection: the \<^verbatim>\<open>err\<close> field that \<^verbatim>\<open>_.extend\<close> has written into
  \<^verbatim>\<open>sockets_details\<close>, whether \<^verbatim>\<open>socket.end()\<close> has been called, whether the socket has
  closed, and whether the one-shot \<^verbatim>\<open>'error'\<close> listener of the request handler is still
  registered.
\<close>

record conn =
  details_err :: "js_error option"
  ended :: bool
  closed :: bool
  handler_once :: bool

text \<open>
  Per \<^verbatim>\<open>stop()\<close> invocation: the variables its closures share. The phase says which
  completion the invocation is waiting for; \<open>AwaitDbClose e\<close> holds \<^verbatim>\<open>serverCloseError\<close>.
\<close>

datatype phase = AwaitDestroy | AwaitDbClose "js_error option" | Completed

record stop_inv =
  target :: callback
  wrapper :: cb_wrapper
  stop_address :: "address option"
  phase :: phase

text \<open>
  The daemon: whether the store is open (\<^verbatim>\<open>this._db.isOpen()\<close>), the \<^verbatim>\<open>done\<close> callbacks
  of the \<^verbatim>\<open>start()\<close> calls parked on the store's \<^verbatim>\<open>'ready'\<close> event, the \<^verbatim>\<open>done\<close>
  callbacks of the \<^verbatim>\<open>listen\<close> calls that have not called back yet, the connections in the
  order they were accepted, the \<^verbatim>\<open>stop()\<close> invocations in the order they were made, and
  whether the TCP server has stopped accepting connections: its \<^verbatim>\<open>destroy\<close> has been called
  and \<^verbatim>\<open>listen\<close> has not been called since.
\<close>

record daemon =
  db_open :: bool
  ready_once :: "callback list"
  listens :: "callback list"
  conns :: "conn list"
  stops :: "stop_inv list"
  refusing :: bool

definition new_daemon :: daemon where
  "new_daemon =
     \<lparr>db_open = False, ready_once = [], listens = [], conns = [], stops = [],
      refusing = False\<rparr>"

subsection \<open>The connection handler\<close>

text \<open>
  \<^verbatim>\<open>String.prototype.indexOf\<close>: the position of the first occurrence of the pattern, or -1.
\<close>

fun indexOf_from :: "nat \<Rightarrow> string \<Rightarrow> string \<Rightarrow> int" where
  "indexOf_from i [] pat = (if pat = [] then int i else - 1)"
| "indexOf_from i (c # cs) pat =
     (if prefix pat (c # cs) then int i else indexOf_from (Suc i) cs pat)"

definition indexOf :: "string \<Rightarrow> string \<Rightarrow> int" where
  "indexOf s pat = indexOf_from 0 s pat"

text \<open>
  \<^verbatim>\<open>LimitdServer.prototype._handler\<close>, run by the TCP server for every accepted socket.
  The new connection gets the next number. The socket options (\<^verbatim>\<open>setNoDelay\<close>,
  \<^verbatim>\<open>setKeepAlive\<close>) leave no trace here.
\<close>

definition handler :: "daemon \<Rightarrow> 'r action list \<times> daemon" where
  "handler d =
     ([Log Debug (Details (Some (length (conns d))) None None) ''connection accepted''],
      d\<lparr>conns := conns d @
           [\<lparr>details_err = None, ended = False, closed = False, handler_once = True\<rparr>]\<rparr>)"

text \<open>The listener of the socket's \<^verbatim>\<open>'error'\<close> event.\<close>

definition on_socket_error :: "nat \<Rightarrow> js_error \<Rightarrow> daemon \<Rightarrow> 'r action list \<times> daemon" where
  "on_socket_error cid err d =
     (if cid < length (conns d) then
        ([Log Debug (Details (Some cid) (Some err) None) ''connection error''],
         d\<lparr>conns := (conns d)[cid := (conns d ! cid)\<lparr>details_err := Some err\<rparr>]\<rparr>)
      else ([], d))"

text \<open>The listener of the socket's \<^verbatim>\<open>'close'\<close> event.\<close>

definition on_socket_close :: "nat \<Rightarrow> daemon \<Rightarrow> 'r action list \<times> daemon" where
  "on_socket_close cid d =
     (if cid < length (conns d) then
        ([Log Debug (Details (Some cid) (details_err (conns d ! cid)) None) ''connection closed''],
         d\<lparr>conns := (conns d)[cid := (conns d ! cid)\<lparr>closed := True\<rparr>]\<rparr>)
      else ([], d))"

text \<open>The listener of the decoder's \<^verbatim>\<open>'error'\<close> event: log at error level, end the socket.\<close>

definition on_decoder_error :: "nat \<Rightarrow> js_error \<Rightarrow> daemon \<Rightarrow> 'r action list \<times> daemon" where
  "on_decoder_error cid err d =
     (if cid < length (conns d) then
        ([Log Error (Details (Some cid) (Some err) None) ''Error detected in the request pipeline.'',
          SocketEnd cid],
         d\<lparr>conns := (conns d)[cid := (conns d ! cid)\<lparr>details_err := Some err, ended := True\<rparr>]\<rparr>)
      else ([], d))"

text \<open>
  The \<^verbatim>\<open>'error'\<close> event of the request handler. The listener is registered with
  \<^verbatim>\<open>once\<close>: it is removed when it runs. An error that arrives later finds none.
\<close>

definition on_handler_error :: "nat \<Rightarrow> js_error \<Rightarrow> daemon \<Rightarrow> 'r action list \<times> daemon" where
  "on_handler_error cid err d =
     (if cid < length (conns d) then
        (if handler_once (conns d ! cid) then
           (let critical = (indexOf (err_message err) ''undefined bucket type'' = - 1);
                c = (conns d ! cid)\<lparr>handler_once := False, details_err := Some err\<rparr>
            in (Log (if critical then Error else Info) (Details (Some cid) (Some err) None)
                  ''Error detected in the request pipeline.''
                # (if critical then [SocketEnd cid] else []),
                d\<lparr>conns := (conns d)[cid := (if critical then c\<lparr>ended := True\<rparr> else c)]\<rparr>))
         else ([Unhandled cid err], d))
      else ([], d))"

text \<open>
  A chunk reaches the end of the pipe chain, \<^verbatim>\<open>.pipe(socket)\<close>: it is written to the
  socket unless the socket has been ended or has closed.
\<close>

definition on_response :: "nat \<Rightarrow> 'r \<Rightarrow> daemon \<Rightarrow> 'r action list \<times> daemon" where
  "on_response cid r d =
     (if cid < length (conns d) \<and> \<not> ended (conns d ! cid) \<and> \<not> closed (conns d ! cid)
      then ([SocketWrite cid r], d)
      else ([], d))"

text \<open>
  The decoder pushes a decoded request into \<^verbatim>\<open>.pipe(request_handler)\<close>. \<^verbatim>\<open>pipe\<close> keeps a
  listener of its own on the \<^verbatim>\<open>'error'\<close> event of its destination and stops feeding the
  destination when that listener runs. It runs on the first error of the request handler,
  the very event that consumes the one-shot listener of \<^verbatim>\<open>_handler\<close>: the request handler
  is handed requests exactly as long as it has emitted no error.
\<close>

definition on_decoded :: "nat \<Rightarrow> daemon \<Rightarrow> 'r action list \<times> daemon" where
  "on_decoded cid d =
     (if cid < length (conns d) \<and> handler_once (conns d ! cid) then ([HandlerWrite cid], d)
      else ([], d))"

subsection \<open>start\<close>

text \<open>
  \<^verbatim>\<open>LimitdServer.prototype.start\<close>: while the store is not open the call parks itself on
  the store's \<^verbatim>\<open>'ready'\<close> event; otherwise it asks the TCP server to listen on the
  configured port and hostname, which also takes a server that had stopped accepting back
  into service.
\<close>

definition start :: "callback \<Rightarrow> daemon \<Rightarrow> 'r action list \<times> daemon" where
  "start dn d =
     (if \<not> db_open d then ([DbOnceReady], d\<lparr>ready_once := ready_once d @ [dn]\<rparr>)
      else ([ServerListen], d\<lparr>listens := listens d @ [dn], refusing := False\<rparr>))"

fun starts :: "callback list \<Rightarrow> daemon \<Rightarrow> 'r action list \<times> daemon" where
  "starts [] d = ([], d)"
| "starts (dn # dns) d =
     (case start dn d of (as, d') \<Rightarrow>
        (case starts dns d' of (bs, d'') \<Rightarrow> (as @ bs, d'')))"

text \<open>
  The store emits \<^verbatim>\<open>'ready'\<close> (it is open from then on): the listener of the constructor
  logs, then every parked \<^verbatim>\<open>start(done)\<close> runs again. The one-shot listeners are removed
  before they run.
\<close>

definition on_db_ready :: "daemon \<Rightarrow> 'r action list \<times> daemon" where
  "on_db_ready d =
     (case starts (ready_once d) (d\<lparr>db_open := True, ready_once := []\<rparr>) of
        (as, d') \<Rightarrow> (Log Info (Details None None None) ''Database ready.'' # as, d'))"

text \<open>The callback given to \<^verbatim>\<open>this._server.listen\<close>, for the oldest pending call.\<close>

definition on_listen :: "js_error option \<Rightarrow> address \<Rightarrow> daemon \<Rightarrow> 'r action list \<times> daemon" where
  "on_listen err address d =
     (case listens d of
        [] \<Rightarrow> ([], d)
      | dn # rest \<Rightarrow>
          (case err of
             Some e \<Rightarrow>
               ([Log Error (Details None (Some e) None) ''error starting server'',
                 Emit (ErrorEvent e)]
                @ (case dn of Some k \<Rightarrow> [CallDone k (DoneErr e)] | None \<Rightarrow> []),
                d\<lparr>listens := rest\<rparr>)
           | None \<Rightarrow>
               ([Log Info (Details None None (Some address)) ''server started'',
                 Emit (Started address)]
                @ (case dn of Some k \<Rightarrow> [CallDone k (DoneOk address)] | None \<Rightarrow> []),
                d\<lparr>listens := rest\<rparr>)))"

subsection \<open>stop\<close>

text \<open>
  Modelled from the spec: \<^verbatim>\<open>destroy\<close> is put on the TCP server by the \<^verbatim>\<open>server-destroy\<close>
  package (\<^verbatim>\<open>enableDestroy\<close>), which is not among the sources. Following section 4.6 of the
  spec, calling it stops the server from accepting new connections and leaves the
  connections it has alone, so that responses in flight can still be written. Its
  completion is the event \<open>Destroyed\<close>.
\<close>

definition server_destroy :: "daemon \<Rightarrow> daemon" where
  "server_destroy d = d\<lparr>refusing := True\<rparr>"

text \<open>
  \<^verbatim>\<open>LimitdServer.prototype.stop\<close>. \<open>address\<close> is what \<^verbatim>\<open>this._server.address()\<close> returns
  at the call. The callback is wrapped, the call is logged and the TCP server's
  \<^verbatim>\<open>destroy\<close> is started. A run of the wrapped function is recorded as \<open>CallStop\<close> also
  when the caller passed none and \<^verbatim>\<open>_.noop\<close> stands in for it.
\<close>

definition stop :: "address option \<Rightarrow> callback \<Rightarrow> daemon \<Rightarrow> 'r action list \<times> daemon" where
  "stop address callback d =
     ([Log Debug (Details None None address) ''closing server'', ServerDestroy (length (stops d))],
      server_destroy
        (d\<lparr>stops := stops d @
             [\<lparr>target = callback, wrapper = cb_set_once (cb_timeout 5000 cb_new),
               stop_address = address, phase = AwaitDestroy\<rparr>]\<rparr>))"

text \<open>The callback of \<^verbatim>\<open>destroy\<close>: log the outcome, then close the store.\<close>

definition on_destroyed :: "nat \<Rightarrow> js_error option \<Rightarrow> daemon \<Rightarrow> 'r action list \<times> daemon" where
  "on_destroyed i serverCloseError d =
     (if i < length (stops d) \<and> phase (stops d ! i) = AwaitDestroy then
        ([case serverCloseError of
            Some e \<Rightarrow> Log Error (Details None (Some e) (stop_address (stops d ! i)))
                        ''error closing the tcp server''
          | None \<Rightarrow> Log Debug (Details None None (stop_address (stops d ! i))) ''server closed'',
          DbClose i],
         d\<lparr>stops := (stops d)[i := (stops d ! i)\<lparr>phase := AwaitDbClose serverCloseError\<rparr>]\<rparr>)
      else ([], d))"

text \<open>
  The callback of \<^verbatim>\<open>this._db.close\<close>: log the outcome, emit \<^verbatim>\<open>'close'\<close>, call the wrapped
  callback with \<^verbatim>\<open>serverCloseError || dbCloseError\<close>.
\<close>

definition on_db_closed :: "nat \<Rightarrow> js_error option \<Rightarrow> daemon \<Rightarrow> 'r action list \<times> daemon" where
  "on_db_closed i dbCloseError d =
     (if i < length (stops d) then
        (case phase (stops d ! i) of
           AwaitDbClose serverCloseError \<Rightarrow>
             (case cb_call (wrapper (stops d ! i)) of
                (invoked, w) \<Rightarrow>
                  ([case dbCloseError of
                      Some e \<Rightarrow> Log Error (Details None (Some e) None) ''error closing the database''
                    | None \<Rightarrow> Log Debug (Details None None None) ''database closed'',
                    Emit Close]
                   @ (if invoked then
                        [CallStop i (CloseResult
                           (case serverCloseError of Some e \<Rightarrow> Some e | None \<Rightarrow> dbCloseError))]
                      else []),
                   d\<lparr>stops := (stops d)[i := (stops d ! i)\<lparr>phase := Completed, wrapper := w\<rparr>]\<rparr>))
         | _ \<Rightarrow> ([], d))
      else ([], d))"

text \<open>The timer of the wrapper of invocation \<open>i\<close> expires.\<close>

definition on_timer :: "nat \<Rightarrow> daemon \<Rightarrow> 'r action list \<times> daemon" where
  "on_timer i d =
     (if i < length (stops d) then
        (case cb_expire (wrapper (stops d ! i)) of
           (fired, w) \<Rightarrow>
             ((case fired of Some ms \<Rightarrow> [CallStop i (TimeoutError ms)] | None \<Rightarrow> []),
              d\<lparr>stops := (stops d)[i := (stops d ! i)\<lparr>wrapper := w\<rparr>]\<rparr>))
      else ([], d))"

subsection \<open>Executions\<close>

text \<open>
  What can happen to the daemon: calls of its two methods, and the events its listeners and
  callbacks are registered for. Events that name a connection or a \<^verbatim>\<open>stop()\<close> invocation that
  does not exist, and completions nobody waits for, change nothing. A TCP server that
  has stopped accepting hands no socket to \<^verbatim>\<open>_handler\<close>.
\<close>

datatype 'r event =
    Start callback
  | Stop "address option" callback
  | Connection
  | SocketError nat js_error
  | SocketClosed nat
  | DecoderError nat js_error
  | HandlerError nat js_error
  | Response nat 'r
  | Decoded nat
  | DbReady
  | DbError js_error
  | DbRepairing
  | ServerError js_error
  | Listened "js_error option" address
  | Destroyed nat "js_error option"
  | DbClosed nat "js_error option"
  | TimerFired nat

fun step :: "'r event \<Rightarrow> daemon \<Rightarrow> 'r action list \<times> daemon" where
  "step (Start dn) d = start dn d"
| "step (Stop address callback) d = stop address callback d"
| "step Connection d = (if refusing d then ([], d) else handler d)"
| "step (SocketError cid err) d = on_socket_error cid err d"
| "step (SocketClosed cid) d = on_socket_close cid d"
| "step (DecoderError cid err) d = on_decoder_error cid err d"
| "step (HandlerError cid err) d = on_handler_error cid err d"
| "step (Response cid r) d = on_response cid r d"
| "step (Decoded cid) d = on_decoded cid d"
| "step DbReady d = on_db_ready d"
| "step (DbError err) d = ([Emit (ErrorEvent err)], d)"
| "step DbRepairing d = ([Log Info (Details None None None) ''Repairing database.''], d)"
| "step (ServerError err) d = ([Emit (ErrorEvent err)], d)"
| "step (Listened err address) d = on_listen err address d"
| "step (Destroyed i err) d = on_destroyed i err d"
| "step (DbClosed i err) d = on_db_closed i err d"
| "step (TimerFired i) d = on_timer i d"

fun run :: "daemon \<Rightarrow> 'r event list \<Rightarrow> 'r action list \<times> daemon" where
  "run d [] = ([], d)"
| "run d (e # es) =
     (case step e d of (as, d') \<Rightarrow>
        (case run d' es of (bs, d'') \<Rightarrow> (as @ bs, d'')))"

text \<open>The chunks written to the socket of connection \<open>cid\<close>, in order.\<close>

fun written :: "nat \<Rightarrow> 'r action list \<Rightarrow> 'r list" where
  "written cid [] = []"
| "written cid (SocketWrite c r # as) = (if c = cid then r # written cid as else written cid as)"
| "written cid (_ # as) = written cid as"

text \<open>How often the callback of \<^verbatim>\<open>stop()\<close> invocation \<open>i\<close> has been run.\<close>

fun stop_calls :: "nat \<Rightarrow> 'r action list \<Rightarrow> nat" where
  "stop_calls i [] = 0"
| "stop_calls i (CallStop j arg # as) = (if j = i then Suc (stop_calls i as) else stop_calls i as)"
| "stop_calls i (_ # as) = stop_calls i as"

text \<open>
  The steps of \<^verbatim>\<open>stop()\<close> invocation \<open>i\<close> in a list of actions: 0 for the call of the TCP
  server's \<^verbatim>\<open>destroy\<close>, 1 for the call of the store's \<^verbatim>\<open>close\<close>, 2 for the call of the
  completion callback with the result of closing.
\<close>

fun stages :: "nat \<Rightarrow> 'r action list \<Rightarrow> nat list" where
  "stages i [] = []"
| "stages i (ServerDestroy j # as) = (if j = i then 0 # stages i as else stages i as)"
| "stages i (DbClose j # as) = (if j = i then 1 # stages i as else stages i as)"
| "stages i (CallStop j (CloseResult r) # as) = (if j = i then 2 # stages i as else stages i as)"
| "stages i (_ # as) = stages i as"

text \<open>
  The events that belong to \<^verbatim>\<open>stop()\<close> invocation \<open>i\<close>: the two completions it waits for
  and the expiry of its timer.
\<close>

fun concerns :: "nat \<Rightarrow> 'r event \<Rightarrow> bool" where
  "concerns i (Destroyed j err) = (j = i)"
| "concerns i (DbClosed j err) = (j = i)"
| "concerns i (TimerFired j) = (j = i)"
| "concerns i _ = False"

text \<open>The events of a shutdown: the call of \<^verbatim>\<open>stop\<close>, its completions and its timer.\<close>

fun shutdown_event :: "'r event \<Rightarrow> bool" where
  "shutdown_event (Stop address callback) = True"
| "shutdown_event (Destroyed j err) = True"
| "shutdown_event (DbClosed j err) = True"
| "shutdown_event (TimerFired j) = True"
| "shutdown_event _ = False"

text \<open>
  The events in which the daemon can ask the TCP server to listen: a call of \<^verbatim>\<open>start\<close>,
  and the store's \<^verbatim>\<open>'ready'\<close> event, which runs the parked calls.
\<close>

fun relistens :: "'r event \<Rightarrow> bool" where
  "relistens (Start dn) = True"
| "relistens DbReady = True"
| "relistens _ = False"

subsection \<open>Concrete inputs\<close>

definition unknown_bucket_error :: js_error where
  "unknown_bucket_error = \<lparr>err_code = [], err_message = ''undefined bucket type ip''\<rparr>"

definition store_error :: js_error where
  "store_error = \<lparr>err_code = ''EIO'', err_message = ''store failure''\<rparr>"

definition frame_error :: js_error where
  "frame_error = \<lparr>err_code = [], err_message = ''malformed frame''\<rparr>"

definition close_error :: js_error where
  "close_error = \<lparr>err_code = ''ERR_SERVER_NOT_RUNNING'', err_message = ''Not running''\<rparr>"

text \<open>A daemon that has accepted one connection and nothing else.\<close>

definition one_connection :: daemon where
  "one_connection =
     new_daemon\<lparr>conns := [\<lparr>details_err = None, ended = False, closed = False,
                            handler_once = True\<rparr>]\<rparr>"

section \<open>Properties of the Bucket Engine\<close>

lemma refill_le_size: "refill cfg prev now \<le> of_nat (bucket_size cfg)"
  by (simp add: refill_def Let_def)

lemma refill_nonneg:
  assumes "0 \<le> refill_rate cfg" and "0 \<le> remaining prev" and "last_update prev \<le> now"
  shows "0 \<le> refill cfg prev now"
proof -
  have "0 \<le> (now - last_update prev) * refill_rate cfg"
    using assms by simp
  then have "0 \<le> remaining prev + (now - last_update prev) * refill_rate cfg"
    using assms(2) by linarith
  then show ?thesis
    by (simp add: refill_def Let_def)
qed

lemma apply_op_in_range:
  assumes rate: "0 \<le> refill_rate cfg" and inv: "in_range cfg s" and t: "last_update s \<le> now"
  shows "in_range cfg (apply_op cfg s (operation, count, now))"
proof (cases "count < 0 \<or> unlimited cfg")
  case True
  then show ?thesis
    using inv by (auto simp: apply_op_def evaluate_def)
next
  case False
  have lo: "0 \<le> refill cfg s now"
    using rate inv t by (simp add: refill_nonneg in_range_def)
  have hi: "refill cfg s now \<le> of_nat (bucket_size cfg)"
    by (rule refill_le_size)
  have cnt: "(0::rat) \<le> of_int count"
    using False by simp
  show ?thesis
  proof (cases operation)
    case TAKE
    then show ?thesis
      using False lo hi cnt by (auto simp: apply_op_def evaluate_def Let_def in_range_def)
  next
    case PUT
    then show ?thesis
      using False lo hi cnt by (auto simp: apply_op_def evaluate_def Let_def in_range_def)
  next
    case STATUS
    then show ?thesis
      using False lo hi by (auto simp: apply_op_def evaluate_def Let_def in_range_def)
  qed
qed

lemma apply_op_last_update:
  assumes "last_update s \<le> now"
  shows "last_update (apply_op cfg s (operation, count, now)) \<le> now"
  using assms
  by (cases operation) (auto simp: apply_op_def evaluate_def Let_def)

lemma states_after_in_range:
  assumes "0 \<le> refill_rate cfg"
  shows "in_range cfg s \<Longrightarrow> chronological (last_update s) ops
           \<Longrightarrow> s' \<in> set (states_after cfg s ops) \<Longrightarrow> in_range cfg s'"
proof (induction ops arbitrary: s)
  case Nil
  then show ?case by simp
next
  case (Cons x xs)
  obtain operation count now where x: "x = (operation, count, now)"
    by (cases x) auto
  from Cons.prems(2) x have t: "last_update s \<le> now" and rest: "chronological now xs"
    by simp_all
  have step: "in_range cfg (apply_op cfg s x)"
    unfolding x using assms Cons.prems(1) t by (rule apply_op_in_range)
  have "last_update (apply_op cfg s x) \<le> now"
    unfolding x using t by (rule apply_op_last_update)
  then have chron: "chronological (last_update (apply_op cfg s x)) xs"
    using rest by (cases xs) auto
  from Cons.prems(3) have "s' = apply_op cfg s x \<or> s' \<in> set (states_after cfg (apply_op cfg s x) xs)"
    by simp
  then show ?case
    using step Cons.IH [OF step chron] by blast
qed

text \<open>
  C1 (amended). A TAKE with a count that is not negative on a bucket type that is not
  unlimited is answered, and it is conformant if and only if the count is at most the
  refilled amount; when it is conformant the new remaining is the refilled amount minus
  exactly the count, and when it is not the new remaining is the refilled amount: a
  rejected TAKE consumes nothing. On an unlimited bucket type a TAKE with a count that is
  not negative is conformant and leaves the state as it was. A TAKE with a negative count
  signals \<^verbatim>\<open>InvalidRequest\<close> and persists nothing.
\<close>

theorem take_conformant_iff:
  "(count < 0 \<longrightarrow> evaluate cfg prev TAKE count now = Inl InvalidRequest)
   \<and> (0 \<le> count \<and> unlimited cfg \<longrightarrow>
        evaluate cfg prev TAKE count now
          = Inr (prev, \<lparr>conformant = True, out_remaining = of_nat (bucket_size cfg),
                        out_limit = bucket_size cfg\<rparr>))
   \<and> (0 \<le> count \<and> \<not> unlimited cfg \<longrightarrow>
        (\<exists>s' out. evaluate cfg prev TAKE count now = Inr (s', out)
           \<and> (conformant out \<longleftrightarrow> of_int count \<le> refill cfg prev now)
           \<and> (conformant out \<longrightarrow> remaining s' = refill cfg prev now - of_int count)
           \<and> (\<not> conformant out \<longrightarrow> remaining s' = refill cfg prev now)))"
  by (auto simp: evaluate_def Let_def)

theorem take_conformant_iff_witness:
  "(- 1 :: int) < 0
   \<and> evaluate ten_per_second (fresh ten_per_second 0) TAKE (- 1) 0 = Inl InvalidRequest
   \<and> (0::int) \<le> 11 \<and> unlimited unlimited_cfg
   \<and> evaluate unlimited_cfg (fresh unlimited_cfg 0) TAKE 11 0
       = Inr (fresh unlimited_cfg 0,
              \<lparr>conformant = True, out_remaining = 10, out_limit = 10\<rparr>)
   \<and> (0::int) \<le> 5 \<and> \<not> unlimited ten_per_second
   \<and> evaluate ten_per_second (fresh ten_per_second 0) TAKE 5 0
       = Inr (\<lparr>remaining = 5, last_update = 0\<rparr>,
              \<lparr>conformant = True, out_remaining = 5, out_limit = 10\<rparr>)
   \<and> evaluate ten_per_second \<lparr>remaining = 5, last_update = 0\<rparr> TAKE 6 0
       = Inr (\<lparr>remaining = 5, last_update = 0\<rparr>,
              \<lparr>conformant = False, out_remaining = 5, out_limit = 10\<rparr>)"
  using take_conformant_iff [of "- 1" ten_per_second "fresh ten_per_second 0" 0]
    take_conformant_iff [of 11 unlimited_cfg "fresh unlimited_cfg 0" 0]
    take_conformant_iff [of 5 ten_per_second "fresh ten_per_second 0" 0]
    take_conformant_iff [of 6 ten_per_second "\<lparr>remaining = 5, last_update = 0\<rparr>" 0]
  by (simp add: ten_per_second_def unlimited_cfg_def fresh_def evaluate_def refill_def)

text \<open>
  C1 as stated fails in two places. On an unlimited bucket type a TAKE of 11 from a full
  bucket of size 10 is conformant although the refilled amount, 10, is below the count. A
  TAKE of -1 does not succeed although the refilled amount, 10, is at least the count.
\<close>

theorem take_unlimited_counterexample:
  "evaluate unlimited_cfg (fresh unlimited_cfg 0) TAKE 11 0
     = Inr (fresh unlimited_cfg 0, \<lparr>conformant = True, out_remaining = 10, out_limit = 10\<rparr>)
   \<and> \<not> (of_int 11 \<le> refill unlimited_cfg (fresh unlimited_cfg 0) 0)
   \<and> evaluate ten_per_second (fresh ten_per_second 0) TAKE (- 1) 0 = Inl InvalidRequest
   \<and> of_int (- 1) \<le> refill ten_per_second (fresh ten_per_second 0) 0"
  by (simp add: unlimited_cfg_def ten_per_second_def fresh_def evaluate_def refill_def)

text \<open>
  C2 (amended). For a bucket type of size S whose refill rate is not negative, a bucket
  state within 0 and S and any sequence of TAKE, PUT and STATUS operations whose instants
  do not run backwards from the state's last update on, the remaining amount is within 0
  and S after every operation.
\<close>

theorem remaining_within_bounds:
  assumes "0 \<le> refill_rate cfg" and "in_range cfg s" and "chronological (last_update s) ops"
  shows "\<forall>s' \<in> set (states_after cfg s ops).
           0 \<le> remaining s' \<and> remaining s' \<le> of_nat (bucket_size cfg)"
  using states_after_in_range [OF assms(1) assms(2) assms(3)]
  by (auto simp: in_range_def)

theorem remaining_within_bounds_witness:
  "0 \<le> refill_rate ten_per_second
   \<and> in_range ten_per_second (fresh ten_per_second 0)
   \<and> chronological (last_update (fresh ten_per_second 0)) [(TAKE, 5, 0), (TAKE, 6, 0), (PUT, 20, 2), (STATUS, 1, 5)]
   \<and> states_after ten_per_second (fresh ten_per_second 0)
        [(TAKE, 5, 0), (TAKE, 6, 0), (PUT, 20, 2), (STATUS, 1, 5)]
       = [\<lparr>remaining = 5, last_update = 0\<rparr>, \<lparr>remaining = 5, last_update = 0\<rparr>,
          \<lparr>remaining = 10, last_update = 2\<rparr>, \<lparr>remaining = 10, last_update = 5\<rparr>]"
  using remaining_within_bounds [of ten_per_second "fresh ten_per_second 0"
          "[(TAKE, 5, 0), (TAKE, 6, 0), (PUT, 20, 2), (STATUS, 1, 5)]"]
  by (simp add: ten_per_second_def fresh_def in_range_def apply_op_def evaluate_def refill_def)

text \<open>
  C2 as stated fails in three places. When the clock runs backwards, a STATUS at instant 5
  on a bucket emptied at instant 10 leaves -5. With a refill rate of -1, a STATUS 20
  seconds after a fresh bucket of size 10 was made leaves -10. And a state that starts
  below 0 stays below 0.
\<close>

theorem remaining_below_zero_counterexample:
  "states_after ten_per_second (fresh ten_per_second 10) [(TAKE, 10, 10), (STATUS, 1, 5)]
     = [\<lparr>remaining = 0, last_update = 10\<rparr>, \<lparr>remaining = - 5, last_update = 5\<rparr>]
   \<and> states_after draining (fresh draining 0) [(STATUS, 1, 20)]
     = [\<lparr>remaining = - 10, last_update = 20\<rparr>]
   \<and> states_after ten_per_second \<lparr>remaining = - 3, last_update = 0\<rparr> [(STATUS, 1, 0)]
     = [\<lparr>remaining = - 3, last_update = 0\<rparr>]"
  by (simp add: ten_per_second_def draining_def fresh_def apply_op_def evaluate_def refill_def)

section \<open>Properties of the daemon\<close>

subsection \<open>Connections\<close>

lemma indexOf_from_sublist: "indexOf_from i s pat = - 1 \<longleftrightarrow> \<not> sublist pat s"
proof (induction s arbitrary: i)
  case Nil
  then show ?case by simp
next
  case (Cons c cs)
  show ?case
  proof (cases "prefix pat (c # cs)")
    case True
    then have "sublist pat (c # cs)"
      by (simp add: sublist_Cons_right)
    with True show ?thesis by simp
  next
    case False
    then show ?thesis
      using Cons.IH [of "Suc i"] by (simp add: sublist_Cons_right)
  qed
qed

lemma indexOf_sublist: "indexOf s pat = - 1 \<longleftrightarrow> \<not> sublist pat s"
  by (simp add: indexOf_def indexOf_from_sublist)

lemma starts_open:
  "db_open d \<Longrightarrow>
     starts dns d
       = (replicate (length dns) ServerListen,
          d\<lparr>listens := listens d @ dns,
            refusing := (if dns = [] then refusing d else False)\<rparr>)"
proof (induction dns arbitrary: d)
  case Nil
  then show ?case by simp
next
  case (Cons dn dns)
  then show ?case by (simp add: start_def)
qed

lemma on_db_ready_eq:
  "on_db_ready d =
     (Log Info (Details None None None) ''Database ready.'' # replicate (length (ready_once d)) ServerListen,
      d\<lparr>db_open := True, ready_once := [], listens := listens d @ ready_once d,
        refusing := (if ready_once d = [] then refusing d else False)\<rparr>)"
  by (simp add: on_db_ready_def starts_open)

lemmas handler_defs =
  start_def stop_def server_destroy_def on_decoded_def handler_def on_socket_error_def on_socket_close_def on_decoder_error_def
  on_handler_error_def on_response_def on_db_ready_eq on_listen_def on_destroyed_def
  on_db_closed_def on_timer_def

lemma written_append: "written cid (as @ bs) = written cid as @ written cid bs"
  by (induction cid as rule: written.induct) simp_all

lemma stop_calls_append: "stop_calls i (as @ bs) = stop_calls i as + stop_calls i bs"
  by (induction i as rule: stop_calls.induct) simp_all

lemma stages_append: "stages i (as @ bs) = stages i as @ stages i bs"
  by (induction i as rule: stages.induct) simp_all

lemma run_append:
  "run d (xs @ ys) = (fst (run d xs) @ fst (run (snd (run d xs)) ys), snd (run (snd (run d xs)) ys))"
  by (induction xs arbitrary: d) (simp_all split: prod.splits)

lemma written_replicate_listen: "written cid (replicate n ServerListen) = []"
  by (induction n) simp_all

lemma step_keeps_ended:
  assumes "cid < length (conns d)" and "ended (conns d ! cid)"
  shows "cid < length (conns (snd (step e d))) \<and> ended (conns (snd (step e d)) ! cid)
           \<and> written cid (fst (step e d)) = []"
  using assms
  by (cases e)
     (auto simp: handler_defs Let_def nth_append nth_list_update written_replicate_listen
           split: list.splits option.splits phase.splits prod.splits)


lemma fst_run_Cons: "fst (run d (e # es)) = fst (step e d) @ fst (run (snd (step e d)) es)"
  by (simp split: prod.splits)

lemma snd_run_Cons: "snd (run d (e # es)) = snd (run (snd (step e d)) es)"
  by (simp split: prod.splits)

lemma run_keeps_ended:
  "cid < length (conns d) \<Longrightarrow> ended (conns d ! cid)
     \<Longrightarrow> cid < length (conns (snd (run d evs))) \<and> ended (conns (snd (run d evs)) ! cid)
           \<and> written cid (fst (run d evs)) = []"
proof (induction evs arbitrary: d)
  case Nil
  then show ?case by simp
next
  case (Cons e es)
  from step_keeps_ended [OF Cons.prems, of e]
  have a: "cid < length (conns (snd (step e d)))" and b: "ended (conns (snd (step e d)) ! cid)"
    and c: "written cid (fst (step e d)) = []"
    by simp_all
  from Cons.IH [OF a b] c show ?case
    by (simp add: written_append fst_run_Cons snd_run_Cons del: run.simps)
qed

lemma step_keeps_consumed:
  assumes "cid < length (conns d)" and "\<not> handler_once (conns d ! cid)"
  shows "cid < length (conns (snd (step e d))) \<and> \<not> handler_once (conns (snd (step e d)) ! cid)"
  using assms
  by (cases e)
     (auto simp: handler_defs Let_def nth_append nth_list_update
           split: list.splits option.splits phase.splits prod.splits)

lemma run_keeps_consumed:
  "cid < length (conns d) \<Longrightarrow> \<not> handler_once (conns d ! cid)
     \<Longrightarrow> cid < length (conns (snd (run d evs))) \<and> \<not> handler_once (conns (snd (run d evs)) ! cid)"
proof (induction evs arbitrary: d)
  case Nil
  then show ?case by simp
next
  case (Cons e es)
  from step_keeps_consumed [OF Cons.prems, of e] Cons.IH [of "snd (step e d)"]
  show ?case
    by (simp add: snd_run_Cons del: run.simps)
qed

text \<open>
  C8. A decode error on a connection is logged at error level and ends that connection's
  socket at once; the step writes nothing to the socket and nothing is written to it by
  anything that happens afterwards. The other connections, the pending listens and starts,
  the store's state, the shutdowns in progress and the state of the TCP server are
  untouched.
\<close>

theorem decoder_error_terminal:
  assumes "cid < length (conns d)"
  shows "fst (step (DecoderError cid err :: 'r event) d)
           = [Log Error (Details (Some cid) (Some err) None) ''Error detected in the request pipeline.'',
              SocketEnd cid]
         \<and> ended (conns (snd (step (DecoderError cid err :: 'r event) d)) ! cid)
         \<and> (\<forall>evs :: 'r event list.
              written cid (fst (run (snd (step (DecoderError cid err :: 'r event) d)) evs)) = [])
         \<and> length (conns (snd (step (DecoderError cid err :: 'r event) d))) = length (conns d)
         \<and> (\<forall>c. c \<noteq> cid \<longrightarrow>
              conns (snd (step (DecoderError cid err :: 'r event) d)) ! c = conns d ! c)
         \<and> listens (snd (step (DecoderError cid err :: 'r event) d)) = listens d
         \<and> ready_once (snd (step (DecoderError cid err :: 'r event) d)) = ready_once d
         \<and> db_open (snd (step (DecoderError cid err :: 'r event) d)) = db_open d
         \<and> stops (snd (step (DecoderError cid err :: 'r event) d)) = stops d
         \<and> refusing (snd (step (DecoderError cid err :: 'r event) d)) = refusing d"
proof -
  let ?d = "snd (step (DecoderError cid err :: 'r event) d)"
  have a: "cid < length (conns ?d)" and b: "ended (conns ?d ! cid)"
    using assms by (simp_all add: on_decoder_error_def)
  have "\<forall>evs :: 'r event list. written cid (fst (run ?d evs)) = []"
    using run_keeps_ended [OF a b] by blast
  then show ?thesis
    using assms by (simp add: on_decoder_error_def)
qed


lemma consumed_unhandled:
  "cid < length (conns s) \<Longrightarrow> \<not> handler_once (conns s ! cid)
     \<Longrightarrow> step (HandlerError cid err) s = ([Unhandled cid err], s)"
  by (simp add: on_handler_error_def)

text \<open>
  C9. The first error of a connection's request handler is logged at info level without
  ending the socket when its message contains \<^verbatim>\<open>undefined bucket type\<close>, and at error
  level with the socket ended otherwise: nothing else of the error decides. After that first
  error, whatever happens in between, a further error of the request handler of the same
  connection finds no listener: it is not logged, the socket is not ended and the daemon's
  state does not change.
\<close>

theorem handler_error_one_shot:
  assumes "cid < length (conns d)"
  shows "(handler_once (conns d ! cid) \<longrightarrow>
            fst (step (HandlerError cid err :: 'r event) d)
              = Log (if sublist ''undefined bucket type'' (err_message err) then Info else Error)
                  (Details (Some cid) (Some err) None) ''Error detected in the request pipeline.''
                # (if sublist ''undefined bucket type'' (err_message err) then []
                   else [SocketEnd cid]))
         \<and> (\<forall>(evs :: 'r event list) err'.
              step (HandlerError cid err' :: 'r event)
                   (snd (run (snd (step (HandlerError cid err :: 'r event) d)) evs))
                = ([Unhandled cid err'],
                   snd (run (snd (step (HandlerError cid err :: 'r event) d)) evs)))"
proof -
  let ?d = "snd (step (HandlerError cid err :: 'r event) d)"
  have a: "cid < length (conns ?d)" and b: "\<not> handler_once (conns ?d ! cid)"
    using assms by (simp_all add: on_handler_error_def Let_def)
  have later: "\<forall>(evs :: 'r event list) err'.
      step (HandlerError cid err' :: 'r event) (snd (run ?d evs))
        = ([Unhandled cid err'], snd (run ?d evs))"
  proof (intro allI)
    fix evs :: "'r event list" and err'
    from run_keeps_consumed [OF a b, of evs]
    have "cid < length (conns (snd (run ?d evs)))"
      and "\<not> handler_once (conns (snd (run ?d evs)) ! cid)"
      by blast+
    then show "step (HandlerError cid err' :: 'r event) (snd (run ?d evs))
        = ([Unhandled cid err'], snd (run ?d evs))"
      by (rule consumed_unhandled)
  qed
  have first: "handler_once (conns d ! cid) \<longrightarrow>
            fst (step (HandlerError cid err :: 'r event) d)
              = Log (if sublist ''undefined bucket type'' (err_message err) then Info else Error)
                  (Details (Some cid) (Some err) None) ''Error detected in the request pipeline.''
                # (if sublist ''undefined bucket type'' (err_message err) then []
                   else [SocketEnd cid])"
    using assms by (simp add: on_handler_error_def indexOf_sublist Let_def)
  from first later show ?thesis by blast
qed

theorem decoder_error_terminal_witness:
  "0 < length (conns one_connection)
   \<and> run one_connection [Response 0 3, DecoderError 0 frame_error, Response 0 (4::nat)]
       = ([SocketWrite 0 3,
           Log Error (Details (Some 0) (Some frame_error) None)
             ''Error detected in the request pipeline.'',
           SocketEnd 0],
          one_connection\<lparr>conns := [\<lparr>details_err = Some frame_error, ended = True,
                                     closed = False, handler_once = True\<rparr>]\<rparr>)"
  using decoder_error_terminal [of 0 one_connection frame_error]
  by (simp add: one_connection_def new_daemon_def handler_defs)

text \<open>
  C4. On one connection two requests are handed to the request handler, the first names a
  bucket type that is not configured and the second fails in the store; a third request
  arrives in between. The error of the first is logged at info level and the socket is
  left open, as the claim says. But from that error on the pipe chain hands the request
  handler nothing: the third request is never served although the connection is open. And
  the store error, which the claim calls fatal, is not logged and does not end the socket:
  the listener was registered with \<^verbatim>\<open>once\<close> and is gone.
\<close>

theorem unknown_bucket_then_requests:
  "run one_connection
     [Decoded 0, Decoded 0, HandlerError 0 unknown_bucket_error, Decoded 0,
      HandlerError 0 store_error :: nat event]
     = ([HandlerWrite 0, HandlerWrite 0,
         Log Info (Details (Some 0) (Some unknown_bucket_error) None)
           ''Error detected in the request pipeline.'',
         Unhandled 0 store_error],
        one_connection\<lparr>conns := [\<lparr>details_err = Some unknown_bucket_error, ended = False,
                                   closed = False, handler_once = False\<rparr>]\<rparr>)"
  by (simp add: one_connection_def new_daemon_def unknown_bucket_error_def store_error_def
        handler_defs indexOf_def Let_def)

theorem handler_error_one_shot_witness:
  "0 < length (conns one_connection)
   \<and> handler_once (conns one_connection ! 0)
   \<and> run one_connection [HandlerError 0 unknown_bucket_error, SocketError 0 store_error,
                          HandlerError 0 store_error :: nat event]
       = ([Log Info (Details (Some 0) (Some unknown_bucket_error) None)
             ''Error detected in the request pipeline.'',
           Log Debug (Details (Some 0) (Some store_error) None) ''connection error'',
           Unhandled 0 store_error],
          one_connection\<lparr>conns := [\<lparr>details_err = Some store_error, ended = False,
                                     closed = False, handler_once = False\<rparr>]\<rparr>)"
  using handler_error_one_shot [of 0 one_connection unknown_bucket_error]
  by (simp add: one_connection_def new_daemon_def unknown_bucket_error_def store_error_def
        handler_defs indexOf_def Let_def sublist_code)

subsection \<open>start and stop\<close>

lemma stop_calls_replicate_listen: "stop_calls i (replicate n ServerListen) = 0"
  by (induction n) simp_all

lemma stages_replicate_listen: "stages i (replicate n ServerListen) = []"
  by (induction n) simp_all

lemma step_unconcerned:
  assumes "i < length (stops s)" and "\<not> concerns i ev"
  shows "i < length (stops (snd (step ev s))) \<and> stops (snd (step ev s)) ! i = stops s ! i"
  using assms
  by (cases ev)
     (auto simp: handler_defs Let_def nth_append nth_list_update
           split: list.splits option.splits phase.splits prod.splits)

lemma run_unconcerned:
  "i < length (stops s) \<Longrightarrow> \<forall>ev \<in> set evs. \<not> concerns i ev
     \<Longrightarrow> i < length (stops (snd (run s evs))) \<and> stops (snd (run s evs)) ! i = stops s ! i"
proof (induction evs arbitrary: s)
  case Nil
  then show ?case by simp
next
  case (Cons e es)
  from Cons.prems have e: "\<not> concerns i e" and es: "\<forall>ev \<in> set es. \<not> concerns i ev"
    by simp_all
  from step_unconcerned [OF Cons.prems(1) e]
  have a: "i < length (stops (snd (step e s)))" and b: "stops (snd (step e s)) ! i = stops s ! i"
    by simp_all
  from Cons.IH [OF a es] b show ?case
    by (simp add: snd_run_Cons del: run.simps)
qed

lemma step_single_fire:
  assumes "i < length (stops s)" and "single_fire (wrapper (stops s ! i))"
  shows "i < length (stops (snd (step e s)))
         \<and> single_fire (wrapper (stops (snd (step e s)) ! i))
         \<and> cb_count (wrapper (stops (snd (step e s)) ! i))
             = cb_count (wrapper (stops s ! i)) + stop_calls i (fst (step e s))
         \<and> (e = TimerFired i \<longrightarrow> cb_count (wrapper (stops (snd (step e s)) ! i)) = 1)"
  using assms
  by (cases e)
     (auto simp: handler_defs Let_def nth_append nth_list_update cb_call_def cb_expire_def
                 stop_calls_replicate_listen single_fire_def
           split: list.splits option.splits phase.splits prod.splits if_splits)

lemma single_fire_count: "single_fire w \<Longrightarrow> cb_count w \<le> 1"
  by (auto simp: single_fire_def)

lemma run_single_fire:
  "i < length (stops s) \<Longrightarrow> single_fire (wrapper (stops s ! i))
     \<Longrightarrow> i < length (stops (snd (run s evs)))
         \<and> single_fire (wrapper (stops (snd (run s evs)) ! i))
         \<and> cb_count (wrapper (stops (snd (run s evs)) ! i))
             = cb_count (wrapper (stops s ! i)) + stop_calls i (fst (run s evs))
         \<and> (TimerFired i \<in> set evs \<longrightarrow> cb_count (wrapper (stops (snd (run s evs)) ! i)) = 1)"
proof (induction evs arbitrary: s)
  case Nil
  then show ?case by simp
next
  case (Cons e es)
  let ?s = "snd (step e s)"
  from step_single_fire [OF Cons.prems, of e]
  have a: "i < length (stops ?s)" and b: "single_fire (wrapper (stops ?s ! i))"
    and c: "cb_count (wrapper (stops ?s ! i))
             = cb_count (wrapper (stops s ! i)) + stop_calls i (fst (step e s))"
    and t: "e = TimerFired i \<longrightarrow> cb_count (wrapper (stops ?s ! i)) = 1"
    by blast+
  from Cons.IH [OF a b]
  have ih1: "i < length (stops (snd (run ?s es)))"
    and ih2: "single_fire (wrapper (stops (snd (run ?s es)) ! i))"
    and ih3: "cb_count (wrapper (stops (snd (run ?s es)) ! i))
             = cb_count (wrapper (stops ?s ! i)) + stop_calls i (fst (run ?s es))"
    and ih4: "TimerFired i \<in> set es \<longrightarrow> cb_count (wrapper (stops (snd (run ?s es)) ! i)) = 1"
    by blast+
  have le: "cb_count (wrapper (stops (snd (run ?s es)) ! i)) \<le> 1"
    using ih2 by (rule single_fire_count)
  have "TimerFired i \<in> set (e # es) \<longrightarrow> cb_count (wrapper (stops (snd (run ?s es)) ! i)) = 1"
    using t ih3 ih4 le by auto
  with ih1 ih2 ih3 c show ?case
    by (simp add: fst_run_Cons snd_run_Cons stop_calls_append del: run.simps)
qed

lemma stop_makes:
  "stops (snd (step (Stop address callback) d))
     = stops d @ [\<lparr>target = callback, wrapper = cb_set_once (cb_timeout 5000 cb_new),
                   stop_address = address, phase = AwaitDestroy\<rparr>]
   \<and> fst (step (Stop address callback) d)
       = [Log Debug (Details None None address) ''closing server'', ServerDestroy (length (stops d))]"
  by (simp add: stop_def server_destroy_def)

lemma fresh_single_fire: "single_fire (cb_set_once (cb_timeout 5000 cb_new))"
  by (simp add: single_fire_def cb_set_once_def cb_timeout_def cb_new_def)

text \<open>
  C6. \<^verbatim>\<open>stop\<close> arms a timer of 5000 milliseconds for its completion callback. Whatever
  happens after the call, further calls of \<^verbatim>\<open>stop\<close> included, the callback of the
  invocation runs at most once; at every moment either it has run exactly once or the timer
  is still armed; and once the timer has expired it has run exactly once, whether or not
  closing the server and the store ever completes.
\<close>

theorem stop_callback_exactly_once:
  "cb_timer (wrapper (stops (snd (step (Stop address callback :: 'r event) d)) ! length (stops d)))
     = Some 5000
   \<and> stop_calls (length (stops d)) (fst (run d ((Stop address callback :: 'r event) # evs))) \<le> 1
   \<and> (TimerFired (length (stops d)) \<in> set evs \<longrightarrow>
        stop_calls (length (stops d)) (fst (run d ((Stop address callback :: 'r event) # evs))) = 1)
   \<and> (stop_calls (length (stops d)) (fst (run d ((Stop address callback :: 'r event) # evs))) = 1
        \<or> cb_timer (wrapper (stops (snd (run d ((Stop address callback :: 'r event) # evs)))
                               ! length (stops d))) = Some 5000)"
proof -
  let ?i = "length (stops d)"
  let ?d = "snd (step (Stop address callback :: 'r event) d)"
  have i: "?i < length (stops ?d)"
    and w: "wrapper (stops ?d ! ?i) = cb_set_once (cb_timeout 5000 cb_new)"
    and acts: "stop_calls ?i (fst (step (Stop address callback :: 'r event) d)) = 0"
    by (simp_all add: stop_def server_destroy_def)
  have sf: "single_fire (wrapper (stops ?d ! ?i))"
    unfolding w by (rule fresh_single_fire)
  have c0: "cb_count (wrapper (stops ?d ! ?i)) = 0"
    unfolding w by (simp add: cb_set_once_def cb_timeout_def cb_new_def)
  have t0: "cb_timer (wrapper (stops ?d ! ?i)) = Some 5000"
    unfolding w by (simp add: cb_set_once_def cb_timeout_def cb_new_def)
  from run_single_fire [OF i sf, of evs]
  have r2: "single_fire (wrapper (stops (snd (run ?d evs)) ! ?i))"
    and r3': "cb_count (wrapper (stops (snd (run ?d evs)) ! ?i))
               = cb_count (wrapper (stops ?d ! ?i)) + stop_calls ?i (fst (run ?d evs))"
    and r4: "TimerFired ?i \<in> set evs \<longrightarrow> cb_count (wrapper (stops (snd (run ?d evs)) ! ?i)) = 1"
    by blast+
  have r3: "cb_count (wrapper (stops (snd (run ?d evs)) ! ?i)) = stop_calls ?i (fst (run ?d evs))"
    using r3' c0 by linarith
  have calls: "stop_calls ?i (fst (run d ((Stop address callback :: 'r event) # evs)))
                 = stop_calls ?i (fst (run ?d evs))"
    using acts by (simp add: fst_run_Cons stop_calls_append del: run.simps step.simps)
  have state: "snd (run d ((Stop address callback :: 'r event) # evs)) = snd (run ?d evs)"
    by (simp add: snd_run_Cons del: run.simps step.simps)
  have le: "stop_calls ?i (fst (run ?d evs)) \<le> 1"
    using single_fire_count [OF r2] r3 by simp
  have alt: "stop_calls ?i (fst (run ?d evs)) = 1
               \<or> cb_timer (wrapper (stops (snd (run ?d evs)) ! ?i)) = Some 5000"
    using r2 r3 by (auto simp: single_fire_def)
  show ?thesis
    unfolding calls state using t0 le r3 r4 alt by simp
qed


lemma step_stages:
  assumes "i < length (stops s)"
  shows "i < length (stops (snd (step e s))) \<and>
    (case phase (stops s ! i) of
       AwaitDestroy \<Rightarrow>
         (stages i (fst (step e s)) = [] \<and> phase (stops (snd (step e s)) ! i) = AwaitDestroy)
         \<or> (stages i (fst (step e s)) = [1]
             \<and> (\<exists>x. phase (stops (snd (step e s)) ! i) = AwaitDbClose x))
     | AwaitDbClose x \<Rightarrow>
         (stages i (fst (step e s)) = [] \<and> phase (stops (snd (step e s)) ! i) = AwaitDbClose x)
         \<or> ((stages i (fst (step e s)) = [] \<or> stages i (fst (step e s)) = [2])
             \<and> phase (stops (snd (step e s)) ! i) = Completed)
     | Completed \<Rightarrow>
         stages i (fst (step e s)) = [] \<and> phase (stops (snd (step e s)) ! i) = Completed)"
  using assms
  by (cases e)
     (auto simp: handler_defs Let_def nth_append nth_list_update cb_call_def cb_expire_def
                 stages_replicate_listen
           split: list.splits option.splits phase.splits prod.splits if_splits)

lemma run_stages:
  "i < length (stops s)
     \<Longrightarrow> prefix (stages i (fst (run s evs)))
           (case phase (stops s ! i) of
              AwaitDestroy \<Rightarrow> [1, 2] | AwaitDbClose x \<Rightarrow> [2] | Completed \<Rightarrow> [])"
proof (induction evs arbitrary: s)
  case Nil
  then show ?case by simp
next
  case (Cons e es)
  let ?s = "snd (step e s)"
  from step_stages [OF Cons.prems, of e]
  have a: "i < length (stops ?s)"
    and b: "(case phase (stops s ! i) of
       AwaitDestroy \<Rightarrow>
         (stages i (fst (step e s)) = [] \<and> phase (stops ?s ! i) = AwaitDestroy)
         \<or> (stages i (fst (step e s)) = [1] \<and> (\<exists>x. phase (stops ?s ! i) = AwaitDbClose x))
     | AwaitDbClose x \<Rightarrow>
         (stages i (fst (step e s)) = [] \<and> phase (stops ?s ! i) = AwaitDbClose x)
         \<or> ((stages i (fst (step e s)) = [] \<or> stages i (fst (step e s)) = [2])
             \<and> phase (stops ?s ! i) = Completed)
     | Completed \<Rightarrow> stages i (fst (step e s)) = [] \<and> phase (stops ?s ! i) = Completed)"
    by blast+
  from Cons.IH [OF a] b show ?case
    by (auto simp: fst_run_Cons stages_append simp del: run.simps step.simps
             split: phase.splits)
qed

lemma emit_close_only_when_db_closed:
  "Emit Close \<in> set (fst (step ev s))
     \<Longrightarrow> \<exists>j e x. ev = DbClosed j e \<and> j < length (stops s) \<and> phase (stops s ! j) = AwaitDbClose x"
  by (cases ev)
     (auto simp: handler_defs Let_def
           split: list.splits option.splits phase.splits prod.splits if_splits)

lemma close_result_after_emit:
  "CallStop j (CloseResult r) \<in> set (fst (step ev s))
     \<Longrightarrow> \<exists>l. fst (step ev s) = [l, Emit Close, CallStop j (CloseResult r)]"
  by (cases ev)
     (auto simp: handler_defs Let_def
           split: list.splits option.splits phase.splits prod.splits if_splits)

lemma step_stays_refusing:
  "refusing s \<Longrightarrow> \<not> relistens ev \<Longrightarrow> refusing (snd (step ev s))"
  by (cases ev)
     (auto simp: handler_defs Let_def
           split: list.splits option.splits phase.splits prod.splits if_splits)

lemma run_stays_refusing:
  "refusing s \<Longrightarrow> \<forall>ev \<in> set evs. \<not> relistens ev \<Longrightarrow> refusing (snd (run s evs))"
proof (induction evs arbitrary: s)
  case Nil
  then show ?case by simp
next
  case (Cons e es)
  from Cons.prems have "refusing (snd (step e s))"
    by (simp add: step_stays_refusing del: step.simps)
  with Cons.IH [of "snd (step e s)"] Cons.prems(2) show ?case
    by (simp add: snd_run_Cons del: run.simps step.simps)
qed

lemma step_shutdown_conns: "shutdown_event ev \<Longrightarrow> conns (snd (step ev s)) = conns s"
  by (cases ev)
     (auto simp: handler_defs Let_def
           split: list.splits option.splits phase.splits prod.splits if_splits)

lemma run_shutdown_conns:
  "\<forall>ev \<in> set evs. shutdown_event ev \<Longrightarrow> conns (snd (run s evs)) = conns s"
proof (induction evs arbitrary: s)
  case Nil
  then show ?case by simp
next
  case (Cons e es)
  from Cons.prems have "conns (snd (step e s)) = conns s"
    by (simp add: step_shutdown_conns del: step.simps)
  with Cons.IH [of "snd (step e s)"] Cons.prems show ?case
    by (simp add: snd_run_Cons del: run.simps step.simps)
qed

lemma server_destroy_only_in_stop:
  "ServerDestroy j \<in> set (fst (step ev s)) \<Longrightarrow> \<exists>a c. ev = Stop a c \<and> j = length (stops s)"
  by (cases ev)
     (auto simp: handler_defs Let_def
           split: list.splits option.splits phase.splits prod.splits if_splits)

lemma db_close_only_when_destroyed:
  "DbClose j \<in> set (fst (step ev s))
     \<Longrightarrow> \<exists>e. ev = Destroyed j e \<and> j < length (stops s) \<and> phase (stops s ! j) = AwaitDestroy"
  by (cases ev)
     (auto simp: handler_defs Let_def
           split: list.splits option.splits phase.splits prod.splits if_splits)

text \<open>
  C5 (amended). For every invocation of \<^verbatim>\<open>stop\<close>, in every execution that follows: the
  steps of the invocation come in the order destroy of the TCP server, close of the store,
  completion callback with the result of closing, none of them twice and the first in the
  call itself. The destroy is called by \<^verbatim>\<open>stop\<close> and nowhere else; from the call on the
  daemon accepts no new connection, until it is asked to listen again. The shutdown ends
  and closes no connection: a response in flight on a connection that was open is still
  written. The store's close is called only when the destroy of this invocation completes;
  \<^verbatim>\<open>'close'\<close> is emitted only when a store close completes, and the completion callback is
  called with the result of closing directly after it. The expiry of the timer is not part
  of this order: it calls the completion callback with a timeout error whenever it comes.
\<close>

theorem shutdown_order:
  "(\<exists>xs. stages (length (stops d)) (fst (run d ((Stop address callback :: 'r event) # evs))) = 0 # xs
         \<and> prefix xs [1, 2])
   \<and> (\<forall>(ev :: 'r event) s. Emit Close \<in> set (fst (step ev s)) \<longrightarrow>
        (\<exists>j e x. ev = DbClosed j e \<and> j < length (stops s) \<and> phase (stops s ! j) = AwaitDbClose x))
   \<and> (\<forall>(ev :: 'r event) s j r. CallStop j (CloseResult r) \<in> set (fst (step ev s)) \<longrightarrow>
        (\<exists>l. fst (step ev s) = [l, Emit Close, CallStop j (CloseResult r)]))
   \<and> (\<forall>(ev :: 'r event) s j. ServerDestroy j \<in> set (fst (step ev s)) \<longrightarrow>
        (\<exists>a c. ev = Stop a c \<and> j = length (stops s)))
   \<and> (\<forall>(ev :: 'r event) s j. DbClose j \<in> set (fst (step ev s)) \<longrightarrow>
        (\<exists>e. ev = Destroyed j e \<and> j < length (stops s) \<and> phase (stops s ! j) = AwaitDestroy))
   \<and> (\<forall>later :: 'r event list. (\<forall>ev \<in> set later. \<not> relistens ev) \<longrightarrow>
        step (Connection :: 'r event) (snd (run d (Stop address callback # later)))
          = ([], snd (run d (Stop address callback # later))))
   \<and> (\<forall>(later :: 'r event list) cid (r :: 'r).
        (\<forall>ev \<in> set later. shutdown_event ev) \<and> cid < length (conns d)
          \<and> \<not> ended (conns d ! cid) \<and> \<not> closed (conns d ! cid) \<longrightarrow>
        fst (step (Response cid r) (snd (run d (Stop address callback # later))))
          = [SocketWrite cid r])"
proof -
  let ?i = "length (stops d)"
  let ?d = "snd (step (Stop address callback :: 'r event) d)"
  have i: "?i < length (stops ?d)" and p: "phase (stops ?d ! ?i) = AwaitDestroy"
    and acts: "stages ?i (fst (step (Stop address callback :: 'r event) d)) = [0]"
    and gone: "refusing ?d" and same: "conns ?d = conns d"
    by (simp_all add: stop_def server_destroy_def)
  have "prefix (stages ?i (fst (run ?d evs))) [1, 2]"
    using run_stages [OF i, of evs] p by simp
  moreover have "stages ?i (fst (run d ((Stop address callback :: 'r event) # evs)))
      = 0 # stages ?i (fst (run ?d evs))"
    using acts by (simp add: fst_run_Cons stages_append del: run.simps step.simps)
  ultimately have first: "\<exists>xs. stages ?i (fst (run d ((Stop address callback :: 'r event) # evs))) = 0 # xs
         \<and> prefix xs [1, 2]"
    by blast
  have refuse: "\<forall>later :: 'r event list. (\<forall>ev \<in> set later. \<not> relistens ev) \<longrightarrow>
        step (Connection :: 'r event) (snd (run d (Stop address callback # later)))
          = ([], snd (run d (Stop address callback # later)))"
  proof (intro allI impI)
    fix later :: "'r event list"
    assume "\<forall>ev \<in> set later. \<not> relistens ev"
    with gone have "refusing (snd (run ?d later))"
      by (rule run_stays_refusing)
    then have "refusing (snd (run d ((Stop address callback :: 'r event) # later)))"
      by (simp add: snd_run_Cons del: run.simps step.simps)
    then show "step (Connection :: 'r event) (snd (run d (Stop address callback # later)))
          = ([], snd (run d (Stop address callback # later)))"
      by simp
  qed
  have flush: "\<forall>(later :: 'r event list) cid (r :: 'r).
        (\<forall>ev \<in> set later. shutdown_event ev) \<and> cid < length (conns d)
          \<and> \<not> ended (conns d ! cid) \<and> \<not> closed (conns d ! cid) \<longrightarrow>
        fst (step (Response cid r) (snd (run d (Stop address callback # later))))
          = [SocketWrite cid r]"
  proof (intro allI impI)
    fix later :: "'r event list" and cid and r :: 'r
    assume a: "(\<forall>ev \<in> set later. shutdown_event ev) \<and> cid < length (conns d)
          \<and> \<not> ended (conns d ! cid) \<and> \<not> closed (conns d ! cid)"
    then have "conns (snd (run ?d later)) = conns ?d"
      by (simp add: run_shutdown_conns del: step.simps)
    then have "conns (snd (run d ((Stop address callback :: 'r event) # later))) = conns d"
      using same by (simp add: snd_run_Cons del: run.simps step.simps)
    with a show "fst (step (Response cid r) (snd (run d (Stop address callback # later))))
          = [SocketWrite cid r]"
      by (simp add: on_response_def del: run.simps)
  qed
  show ?thesis
    using first emit_close_only_when_db_closed close_result_after_emit
      server_destroy_only_in_stop db_close_only_when_destroyed refuse flush
    by blast
qed

text \<open>
  C7. A call of \<^verbatim>\<open>start\<close> while the store is not open does not call \<^verbatim>\<open>listen\<close>, emits
  nothing and calls no callback: it parks itself on the store's \<^verbatim>\<open>'ready'\<close> event. When the
  store becomes ready, \<^verbatim>\<open>listen\<close> is called for every parked call, this one included.
  When a \<^verbatim>\<open>listen\<close> succeeds, the daemon logs, emits \<^verbatim>\<open>'started'\<close> with the bound address
  and passes that address to the \<^verbatim>\<open>done\<close> callback of the call, if it has one.
\<close>

theorem start_waits_for_ready:
  assumes "\<not> db_open d"
  shows "step (Start dn :: 'r event) d = ([DbOnceReady], d\<lparr>ready_once := ready_once d @ [dn]\<rparr>)
         \<and> fst (step (DbReady :: 'r event) (snd (step (Start dn :: 'r event) d)))
             = Log Info (Details None None None) ''Database ready.''
               # replicate (Suc (length (ready_once d))) ServerListen
         \<and> listens (snd (step (DbReady :: 'r event) (snd (step (Start dn :: 'r event) d))))
             = listens d @ ready_once d @ [dn]
         \<and> (\<forall>s dn' rest address. listens s = dn' # rest \<longrightarrow>
              step (Listened None address :: 'r event) s
                = ([Log Info (Details None None (Some address)) ''server started'',
                    Emit (Started address)]
                   @ (case dn' of Some k \<Rightarrow> [CallDone k (DoneOk address)] | None \<Rightarrow> []),
                   s\<lparr>listens := rest\<rparr>))"
  using assms by (simp add: start_def on_db_ready_eq on_listen_def)


lemma destroyed_awaiting:
  "i < length (stops s) \<Longrightarrow> phase (stops s ! i) = AwaitDestroy
     \<Longrightarrow> step (Destroyed i e1) s
         = ([case e1 of
               Some e \<Rightarrow> Log Error (Details None (Some e) (stop_address (stops s ! i)))
                           ''error closing the tcp server''
             | None \<Rightarrow> Log Debug (Details None None (stop_address (stops s ! i))) ''server closed'',
             DbClose i],
            s\<lparr>stops := (stops s)[i := (stops s ! i)\<lparr>phase := AwaitDbClose e1\<rparr>]\<rparr>)"
  by (simp add: on_destroyed_def)

lemma db_closed_awaiting:
  "i < length (stops s) \<Longrightarrow> phase (stops s ! i) = AwaitDbClose x
     \<Longrightarrow> fst (step (DbClosed i e2) s)
         = [case e2 of
              Some e \<Rightarrow> Log Error (Details None (Some e) None) ''error closing the database''
            | None \<Rightarrow> Log Debug (Details None None None) ''database closed'',
            Emit Close]
           @ (if fst (cb_call (wrapper (stops s ! i)))
              then [CallStop i (CloseResult (case x of Some e \<Rightarrow> Some e | None \<Rightarrow> e2))]
              else [])"
  by (simp add: on_db_closed_def split: prod.splits)

text \<open>
  C10 (amended). For a \<^verbatim>\<open>stop\<close> invocation whose timer does not expire before the store's
  \<^verbatim>\<open>close\<close> completes, whatever else happens in between: the outcome of destroying the TCP
  server is logged (at error level when it failed) and the store is closed all the same; the
  outcome of closing the store is logged likewise, \<^verbatim>\<open>'close'\<close> is emitted and the completion
  callback is called with the server's error if there was one, otherwise with the store's
  error, otherwise with nothing. Whatever the state of the timer, when a store close that
  \<^verbatim>\<open>stop\<close> has started completes, its outcome is logged and \<^verbatim>\<open>'close'\<close> is emitted.
\<close>

theorem close_errors_only_logged:
  fixes evs1 evs2 :: "'r event list"
  assumes "\<forall>ev \<in> set evs1. \<not> concerns (length (stops d)) ev"
    and "\<forall>ev \<in> set evs2. \<not> concerns (length (stops d)) ev"
  shows "fst (step (Destroyed (length (stops d)) e1 :: 'r event)
                (snd (run d (Stop address callback # evs1))))
           = [case e1 of
                Some e \<Rightarrow> Log Error (Details None (Some e) address) ''error closing the tcp server''
              | None \<Rightarrow> Log Debug (Details None None address) ''server closed'',
              DbClose (length (stops d))]
         \<and> fst (step (DbClosed (length (stops d)) e2 :: 'r event)
                  (snd (run d (Stop address callback # evs1
                                 @ Destroyed (length (stops d)) e1 # evs2))))
           = [case e2 of
                Some e \<Rightarrow> Log Error (Details None (Some e) None) ''error closing the database''
              | None \<Rightarrow> Log Debug (Details None None None) ''database closed'',
              Emit Close,
              CallStop (length (stops d))
                (CloseResult (case e1 of Some e \<Rightarrow> Some e | None \<Rightarrow> e2))]
         \<and> (\<forall>s j x. j < length (stops s) \<and> phase (stops s ! j) = AwaitDbClose x \<longrightarrow>
              take 2 (fst (step (DbClosed j e2 :: 'r event) s))
                = [case e2 of
                     Some e \<Rightarrow> Log Error (Details None (Some e) None) ''error closing the database''
                   | None \<Rightarrow> Log Debug (Details None None None) ''database closed'',
                   Emit Close])"
proof -
  let ?i = "length (stops d)"
  let ?inv = "\<lparr>target = callback, wrapper = cb_set_once (cb_timeout 5000 cb_new),
               stop_address = address, phase = AwaitDestroy\<rparr>"
  let ?d1 = "snd (step (Stop address callback :: 'r event) d)"
  let ?d2 = "snd (run ?d1 evs1)"
  let ?d3 = "snd (step (Destroyed ?i e1 :: 'r event) ?d2)"
  let ?d4 = "snd (run ?d3 evs2)"
  have i1: "?i < length (stops ?d1)" and s1: "stops ?d1 ! ?i = ?inv"
    by (simp_all add: stop_def server_destroy_def)
  from run_unconcerned [OF i1 assms(1)] s1
  have i2: "?i < length (stops ?d2)" and s2: "stops ?d2 ! ?i = ?inv"
    by (simp_all del: step.simps)
  have p2: "phase (stops ?d2 ! ?i) = AwaitDestroy"
    unfolding s2 by simp
  have step3: "step (Destroyed ?i e1 :: 'r event) ?d2
         = ([case e1 of
               Some e \<Rightarrow> Log Error (Details None (Some e) address) ''error closing the tcp server''
             | None \<Rightarrow> Log Debug (Details None None address) ''server closed'',
             DbClose ?i],
            ?d2\<lparr>stops := (stops ?d2)[?i := ?inv\<lparr>phase := AwaitDbClose e1\<rparr>]\<rparr>)"
    using destroyed_awaiting [OF i2 p2, of e1, unfolded s2]
    by (cases e1) (simp_all del: step.simps)
  have i3: "?i < length (stops ?d3)" and s3: "stops ?d3 ! ?i = ?inv\<lparr>phase := AwaitDbClose e1\<rparr>"
    using i2 by (simp_all add: step3 del: step.simps)
  from run_unconcerned [OF i3 assms(2)] s3
  have i4: "?i < length (stops ?d4)" and s4: "stops ?d4 ! ?i = ?inv\<lparr>phase := AwaitDbClose e1\<rparr>"
    by (simp_all del: step.simps)
  have p4: "phase (stops ?d4 ! ?i) = AwaitDbClose e1"
    unfolding s4 by simp
  have call: "fst (cb_call (wrapper (stops ?d4 ! ?i)))"
    unfolding s4 by (simp add: cb_call_def cb_set_once_def cb_timeout_def cb_new_def)
  have e2: "snd (run d ((Stop address callback :: 'r event) # evs1)) = ?d2"
    by (simp add: snd_run_Cons del: run.simps step.simps)
  have e4: "snd (run d ((Stop address callback :: 'r event) # evs1 @ Destroyed ?i e1 # evs2)) = ?d4"
    by (simp add: snd_run_Cons run_append del: run.simps step.simps)
  have first: "fst (step (Destroyed ?i e1 :: 'r event) ?d2)
           = [case e1 of
                Some e \<Rightarrow> Log Error (Details None (Some e) address) ''error closing the tcp server''
              | None \<Rightarrow> Log Debug (Details None None address) ''server closed'',
              DbClose ?i]"
    by (simp add: step3 del: step.simps)
  have second: "fst (step (DbClosed ?i e2 :: 'r event) ?d4)
           = [case e2 of
                Some e \<Rightarrow> Log Error (Details None (Some e) None) ''error closing the database''
              | None \<Rightarrow> Log Debug (Details None None None) ''database closed'',
              Emit Close,
              CallStop ?i (CloseResult (case e1 of Some e \<Rightarrow> Some e | None \<Rightarrow> e2))]"
    using db_closed_awaiting [OF i4 p4, of e2] call by (simp del: step.simps)
  have third: "\<forall>s j x. j < length (stops s) \<and> phase (stops s ! j) = AwaitDbClose x \<longrightarrow>
              take 2 (fst (step (DbClosed j e2 :: 'r event) s))
                = [case e2 of
                     Some e \<Rightarrow> Log Error (Details None (Some e) None) ''error closing the database''
                   | None \<Rightarrow> Log Debug (Details None None None) ''database closed'',
                   Emit Close]"
    by (simp add: db_closed_awaiting del: step.simps)
  show ?thesis
    unfolding e2 e4 using first second third by blast
qed


lemmas concrete_defs =
  new_daemon_def one_connection_def close_error_def store_error_def unknown_bucket_error_def
  cb_call_def cb_expire_def cb_set_once_def cb_timeout_def cb_new_def

theorem stop_callback_exactly_once_witness:
  "TimerFired 0 \<in> set [Stop None (Some 8), TimerFired 0, Destroyed 1 None, Destroyed 0 None,
                         DbClosed 0 None, DbClosed 1 None, TimerFired 1 :: nat event]
   \<and> fst (run new_daemon
        [Stop None (Some 7), Stop None (Some 8), TimerFired 0, Destroyed 1 None, Destroyed 0 None,
         DbClosed 0 None, DbClosed 1 None, TimerFired 1 :: nat event])
     = [Log Debug (Details None None None) ''closing server'', ServerDestroy 0,
        Log Debug (Details None None None) ''closing server'', ServerDestroy 1,
        CallStop 0 (TimeoutError 5000),
        Log Debug (Details None None None) ''server closed'', DbClose 1,
        Log Debug (Details None None None) ''server closed'', DbClose 0,
        Log Debug (Details None None None) ''database closed'', Emit Close,
        Log Debug (Details None None None) ''database closed'', Emit Close,
        CallStop 1 (CloseResult None)]"
  using stop_callback_exactly_once [of None "Some 7" new_daemon
          "[Stop None (Some 8), TimerFired 0, Destroyed 1 None, Destroyed 0 None,
            DbClosed 0 None, DbClosed 1 None, TimerFired 1 :: nat event]"]
  by (simp add: concrete_defs handler_defs)

theorem shutdown_order_witness:
  "run one_connection
     [Stop (Some (''0.0.0.0'', 9231)) (Some 7), Connection, Response 0 5, Destroyed 0 None,
      Response 0 6, DbClosed 0 None :: nat event]
     = ([Log Debug (Details None None (Some (''0.0.0.0'', 9231))) ''closing server'',
         ServerDestroy 0,
         SocketWrite 0 5,
         Log Debug (Details None None (Some (''0.0.0.0'', 9231))) ''server closed'',
         DbClose 0,
         SocketWrite 0 6,
         Log Debug (Details None None None) ''database closed'',
         Emit Close,
         CallStop 0 (CloseResult None)],
        one_connection
          \<lparr>stops := [\<lparr>target = Some 7,
                       wrapper = \<lparr>cb_count = 1, cb_once = True, cb_timedout = False,
                                  cb_timer = None\<rparr>,
                       stop_address = Some (''0.0.0.0'', 9231), phase = Completed\<rparr>],
           refusing := True\<rparr>)
   \<and> shutdown_event (Destroyed 0 None :: nat event)
   \<and> \<not> relistens (Destroyed 0 None :: nat event)"
  using shutdown_order [of one_connection "Some (''0.0.0.0'', 9231)" "Some 7"
          "[Destroyed 0 None, DbClosed 0 None :: nat event]"]
  by (simp add: concrete_defs handler_defs)

text \<open>
  C5 as stated fails when the timer expires first: the completion callback is called while
  the store's \<^verbatim>\<open>close\<close> has not even been started and \<^verbatim>\<open>'close'\<close> has not been emitted.
\<close>

theorem timeout_before_close_counterexample:
  "fst (run new_daemon [Stop None (Some 7), TimerFired 0 :: nat event])
     = [Log Debug (Details None None None) ''closing server'', ServerDestroy 0,
        CallStop 0 (TimeoutError 5000)]"
  by (simp add: concrete_defs handler_defs)

theorem close_errors_only_logged_witness:
  "\<not> concerns 0 (Response 0 4 :: nat event) \<and> \<not> concerns 0 (Response 0 5 :: nat event)
   \<and> fst (run one_connection
        [Stop None (Some 7), Response 0 4, Destroyed 0 (Some close_error), Response 0 5,
         DbClosed 0 None :: nat event])
     = [Log Debug (Details None None None) ''closing server'', ServerDestroy 0,
        SocketWrite 0 4,
        Log Error (Details None (Some close_error) None) ''error closing the tcp server'',
        DbClose 0,
        SocketWrite 0 5,
        Log Debug (Details None None None) ''database closed'', Emit Close,
        CallStop 0 (CloseResult (Some close_error))]"
  using close_errors_only_logged [of "[Response 0 4 :: nat event]" one_connection
          "[Response 0 5 :: nat event]" "Some close_error" None "Some 7" None]
  by (simp add: concrete_defs handler_defs)

text \<open>
  C10 as stated fails when the closes complete after the timer has expired: the server's
  error is logged and \<^verbatim>\<open>'close'\<close> is emitted, but the completion callback has already run
  with the timeout error and never receives the server's error.
\<close>

theorem late_close_error_counterexample:
  "fst (run new_daemon
     [Stop None (Some 7), TimerFired 0, Destroyed 0 (Some close_error), DbClosed 0 None :: nat event])
     = [Log Debug (Details None None None) ''closing server'', ServerDestroy 0,
        CallStop 0 (TimeoutError 5000),
        Log Error (Details None (Some close_error) None) ''error closing the tcp server'',
        DbClose 0,
        Log Debug (Details None None None) ''database closed'', Emit Close]"
  by (simp add: concrete_defs handler_defs)

theorem start_waits_for_ready_witness:
  "\<not> db_open new_daemon
   \<and> run new_daemon [Start (Some 3), DbReady, Listened None (''0.0.0.0'', 9231) :: nat event]
     = ([DbOnceReady,
         Log Info (Details None None None) ''Database ready.'',
         ServerListen,
         Log Info (Details None None (Some (''0.0.0.0'', 9231))) ''server started'',
         Emit (Started (''0.0.0.0'', 9231)),
         CallDone 3 (DoneOk (''0.0.0.0'', 9231))],
        new_daemon\<lparr>db_open := True\<rparr>)"
  using start_waits_for_ready [of new_daemon "Some 3"]
  by (simp add: concrete_defs handler_defs)

end
